theory Spec2Isabelle
  imports Complex_Main "HOL-Library.Sublist"
begin

section \<open>Library functions used by whenchanged.py\<close>

subsection \<open>The regular expressions of \<open>exclude_list\<close>\<close>

text \<open>
  The five patterns of \<open>WhenChanged.exclude_list\<close> use literal characters, the dot,
  one character class, the postfix operators \<open>*\<close> and \<open>?\<close> on a single character, and
  the anchor \<open>$\<close>. A pattern is a sequence of such items. Without flags, the dot of
  Python's \<open>re\<close> matches every character except the newline, and \<open>$\<close> matches at the end
  of the string and just before a newline that ends the string.
\<close>

datatype atom = Lit char | Dot | Cls "char list"

datatype item = One atom | Star atom | Opt atom | Eos

type_synonym regex = "item list"

fun atom_ok :: "atom \<Rightarrow> char \<Rightarrow> bool" where
  "atom_ok (Lit a) c = (c = a)"
| "atom_ok Dot c = (c \<noteq> CHR 0x0A)"
| "atom_ok (Cls cs) c = (c \<in> set cs)"

text \<open>\<open>match_here r s\<close>: the pattern matches some prefix of \<open>s\<close>, where \<open>s\<close> is the rest
  of the subject string from the current position.\<close>

function match_here :: "regex \<Rightarrow> string \<Rightarrow> bool" where
  "match_here [] s = True"
| "match_here (One a # r) [] = False"
| "match_here (One a # r) (c # cs) = (atom_ok a c \<and> match_here r cs)"
| "match_here (Star a # r) [] = match_here r []"
| "match_here (Star a # r) (c # cs) =
     (match_here r (c # cs) \<or> (atom_ok a c \<and> match_here (Star a # r) cs))"
| "match_here (Opt a # r) [] = match_here r []"
| "match_here (Opt a # r) (c # cs) =
     (match_here r (c # cs) \<or> (atom_ok a c \<and> match_here r cs))"
| "match_here (Eos # r) s = ((s = [] \<or> s = [CHR 0x0A]) \<and> match_here r s)"
  by pat_completeness auto
termination
  by (relation "measure (\<lambda>(r, s). length r + length s)") auto

text \<open>\<open>re.compile(i).findall(path)\<close> is a non-empty list exactly when the pattern matches
  at some position of the string.\<close>

fun findall_nonempty :: "regex \<Rightarrow> string \<Rightarrow> bool" where
  "findall_nonempty r [] = match_here r []"
| "findall_nonempty r (c # cs) = (match_here r (c # cs) \<or> findall_nonempty r cs)"

definition lits :: "string \<Rightarrow> regex" where
  "lits s = map (\<lambda>c. One (Lit c)) s"

subsection \<open>\<open>os.path.dirname\<close> (posixpath)\<close>

text \<open>
  \<open>i = p.rfind('/') + 1; head = p[:i]; if head and head != '/' * len(head):
  head = head.rstrip('/'); return head\<close>
\<close>

definition dirname :: "string \<Rightarrow> string" where
  "dirname p =
     (let head = rev (dropWhile (\<lambda>c. c \<noteq> CHR ''/'') (rev p))
      in if head \<noteq> [] \<and> \<not> (\<forall>c \<in> set head. c = CHR ''/'')
         then rev (dropWhile (\<lambda>c. c = CHR ''/'') (rev head))
         else head)"

subsection \<open>\<open>str.replace\<close> and \<open>str.upper\<close>\<close>

function str_replace :: "string \<Rightarrow> string \<Rightarrow> string \<Rightarrow> string" where
  "str_replace old new [] = (if old = [] then new else [])"
| "str_replace old new (c # cs) =
     (if old = [] then new @ c # str_replace old new cs
      else if prefix old (c # cs)
           then new @ str_replace old new (drop (length old) (c # cs))
           else c # str_replace old new cs)"
  by pat_completeness auto
termination
  by (relation "measure (\<lambda>(old, new, s). length s)") auto

text \<open>\<open>str.upper\<close> on the ASCII letters, which is all the two variable names need.\<close>

definition upper_char :: "char \<Rightarrow> char" where
  "upper_char c =
     (case map_of (zip ''abcdefghijklmnopqrstuvwxyz'' ''ABCDEFGHIJKLMNOPQRSTUVWXYZ'') c of
        Some u \<Rightarrow> u
      | None \<Rightarrow> c)"

definition upper :: "string \<Rightarrow> string" where
  "upper s = map upper_char s"

subsection \<open>Dictionaries that are iterated\<close>

text \<open>A Python dict keeps its keys in the order of their first insertion; assigning to
  a key that is present replaces the value in place.\<close>

fun dict_set :: "('k \<times> 'v) list \<Rightarrow> 'k \<Rightarrow> 'v \<Rightarrow> ('k \<times> 'v) list" where
  "dict_set [] k v = [(k, v)]"
| "dict_set ((k', v') # d) k v =
     (if k' = k then (k, v) # d else (k', v') # dict_set d k v)"

definition dict_keys :: "('k \<times> 'v) list \<Rightarrow> 'k list" where
  "dict_keys d = map fst d"

definition dict_has :: "('k \<times> 'v) list \<Rightarrow> 'k \<Rightarrow> bool" where
  "dict_has d k = (k \<in> set (dict_keys d))"

section \<open>The operating system, the observer and the child process\<close>

text \<open>
  What the code reads from the operating system: \<open>os.path.realpath\<close>, \<open>os.path.isdir\<close>,
  \<open>os.path.getmtime\<close> (defined exactly on the paths for which \<open>os.path.exists\<close> holds) and
  the clock read by \<open>time.time()\<close>.
\<close>

record os_state =
  realpath :: "string \<Rightarrow> string"
  isdir :: "string \<Rightarrow> bool"
  getmtime :: "string \<rightharpoonup> real"
  clock :: real

definition exists_path :: "os_state \<Rightarrow> string \<Rightarrow> bool" where
  "exists_path w p = (getmtime w p \<noteq> None)"

text \<open>A subscription requested with \<open>observer.schedule(handler, path, recursive)\<close>; the
  parameter \<open>recursive\<close> of watchdog's \<open>schedule\<close> defaults to \<open>False\<close>.\<close>

record watch =
  watch_path :: string
  watch_recursive :: bool

record observer_state =
  class_name :: string
  timeout :: real
  watches :: "watch list"

definition schedule :: "observer_state \<Rightarrow> string \<Rightarrow> bool \<Rightarrow> observer_state" where
  "schedule ob p r = ob\<lparr>watches := watches ob @ [\<lparr>watch_path = p, watch_recursive = r\<rparr>]\<rparr>"

text \<open>The arguments of one \<open>subprocess.call\<close>.\<close>

record popen_args =
  args :: "string list"
  shell :: bool
  env :: "string \<rightharpoonup> string"
  stdout_devnull :: bool

datatype exn = KeyError string | SpawnError

text \<open>
  The child process is a parameter: given the call and the state of the operating system
  when it starts, either the call raises (the program cannot be started), or the child
  runs to its end and leaves the operating system, clock included, in a new state.
\<close>

type_synonym child = "popen_args \<Rightarrow> os_state \<Rightarrow> exn + os_state"

section \<open>The class \<open>WhenChanged\<close>\<close>

definition exclude_list :: "regex list" where
  "exclude_list =
     [ [One (Lit (CHR ''.'')), Star Dot] @ lits ''.sw'' @ [Star (Cls ''px''), Eos],
       lits ''4913'' @ [Eos],
       [One Dot, One (Lit (CHR ''~'')), Eos],
       lits ''.git'' @ [Opt (Lit (CHR ''/''))],
       lits ''__pycache__'' @ [Opt (Lit (CHR ''/''))] ]"

record when_changed =
  files :: "string list"
  paths :: "(string \<times> string) list"
  command :: "string list"
  recursive :: bool
  run_once :: bool
  run_at_start :: bool
  last_run :: real
  verbose_mode :: int
  quiet_mode :: bool
  process_env :: "string \<rightharpoonup> string"
  observer :: observer_state

text \<open>\<open>__init__\<close>: \<open>environ\<close> is \<open>os.environ\<close>, \<open>cls\<close> the name of the class that
  \<open>watchdog.observers.Observer\<close> stands for on the platform.\<close>

definition init_paths :: "os_state \<Rightarrow> string list \<Rightarrow> (string \<times> string) list" where
  "init_paths w fs = fold (\<lambda>f d. dict_set d (realpath w f) f) fs []"

definition init_watch :: "os_state \<Rightarrow> string \<Rightarrow> observer_state \<Rightarrow> observer_state" where
  "init_watch w p ob =
     (if isdir w p then schedule ob p True else schedule ob (dirname p) False)"

definition init ::
  "os_state \<Rightarrow> (string \<rightharpoonup> string) \<Rightarrow> string \<Rightarrow> string list \<Rightarrow> string list \<Rightarrow>
   bool \<Rightarrow> bool \<Rightarrow> bool \<Rightarrow> int \<Rightarrow> bool \<Rightarrow> when_changed" where
  "init w environ cls fs cmd rec once at_start verbose quiet =
     (let ps = init_paths w fs
      in \<lparr>files = fs, paths = ps, command = cmd, recursive = rec, run_once = once,
          run_at_start = at_start, last_run = 0, verbose_mode = verbose,
          quiet_mode = quiet, process_env = environ,
          observer = fold (init_watch w) (dict_keys ps)
                       \<lparr>class_name = cls, timeout = 1 / 10, watches = []\<rparr>\<rparr>)"

definition envvar_key :: "string \<Rightarrow> string" where
  "envvar_key name = ''WHEN_CHANGED_'' @ upper name"

definition set_envvar :: "when_changed \<Rightarrow> string \<Rightarrow> string \<Rightarrow> when_changed" where
  "set_envvar st name v = st\<lparr>process_env := (process_env st)(envvar_key name \<mapsto> v)\<rparr>"

definition get_envvar :: "when_changed \<Rightarrow> string \<Rightarrow> exn + string" where
  "get_envvar st name =
     (case process_env st (envvar_key name) of
        None \<Rightarrow> Inl (KeyError (envvar_key name))
      | Some v \<Rightarrow> Inr v)"

subsection \<open>\<open>is_interested\<close>\<close>

definition excluded :: "string \<Rightarrow> bool" where
  "excluded path = (\<exists>i \<in> set exclude_list. findall_nonempty i path)"

text \<open>
  The loop \<open>while os.path.dirname(path) != path: path_ = os.path.dirname(path);
  if path_ in self.paths: return True\<close>. The body assigns \<open>path_\<close>, so the next round
  tests the same \<open>path\<close>. The value is \<open>Some True\<close> for the \<open>return True\<close> of the body,
  \<open>Some False\<close> when the loop ends (the function then returns \<open>False\<close>), and \<open>None\<close>
  when the loop never ends.
\<close>

partial_function (option) ancestor_walk ::
  "(string \<times> string) list \<Rightarrow> string \<Rightarrow> bool option" where
  "ancestor_walk ps path =
     (if dirname path \<noteq> path
      then (if dict_has ps (dirname path) then Some True else ancestor_walk ps path)
      else Some False)"

definition is_interested :: "when_changed \<Rightarrow> string \<Rightarrow> bool option" where
  "is_interested st path =
     (if excluded path then Some False
      else if dict_has (paths st) path then Some True
      else let path = dirname path
           in if dict_has (paths st) path then Some True
              else if recursive st then ancestor_walk (paths st) path
              else Some False)"

subsection \<open>\<open>run_command\<close>\<close>

text \<open>
  What a call of a method leaves behind: the exception it raised, if any, the object,
  the operating system, and the \<open>subprocess.call\<close>s it made. The calls to \<open>logging\<close> are
  left out.
\<close>

record outcome =
  raised :: "exn option"
  self :: when_changed
  os :: os_state
  calls :: "popen_args list"

definition gate_open :: "when_changed \<Rightarrow> os_state \<Rightarrow> string \<Rightarrow> bool" where
  "gate_open st w thefile =
     (if run_once st
      then (case getmtime w thefile of
              None \<Rightarrow> False
            | Some m \<Rightarrow> if m < last_run st then False else True)
      else True)"

definition new_command :: "when_changed \<Rightarrow> string \<Rightarrow> string list" where
  "new_command st thefile = map (\<lambda>item. str_replace ''%f'' thefile item) (command st)"

definition the_call :: "when_changed \<Rightarrow> string \<Rightarrow> popen_args" where
  "the_call st thefile =
     \<lparr>args = new_command st thefile,
      shell = (length (new_command st thefile) = 1),
      env = process_env (set_envvar st ''file'' thefile),
      stdout_devnull = quiet_mode st\<rparr>"

definition run_command :: "child \<Rightarrow> when_changed \<Rightarrow> os_state \<Rightarrow> string \<Rightarrow> outcome" where
  "run_command ch st w thefile =
     (if \<not> gate_open st w thefile
      then \<lparr>raised = None, self = st, os = w, calls = []\<rparr>
      else let st1 = set_envvar st ''file'' thefile;
               c = the_call st thefile
           in case ch c w of
                Inl e \<Rightarrow> \<lparr>raised = Some e, self = st1, os = w, calls = [c]\<rparr>
              | Inr w1 \<Rightarrow>
                  (let st2 = st1\<lparr>last_run := clock w1\<rparr>
                   in (case get_envvar st2 ''event'' of
                         Inl e \<Rightarrow> \<lparr>raised = Some e, self = st2, os = w1, calls = [c]\<rparr>
                       | Inr ev \<Rightarrow> \<lparr>raised = None, self = st2, os = w1, calls = [c]\<rparr>)))"

subsection \<open>The event handlers and \<open>run\<close>\<close>

record event =
  is_directory :: bool
  src_path :: string
  dest_path :: string

definition idle :: "when_changed \<Rightarrow> os_state \<Rightarrow> outcome" where
  "idle st w = \<lparr>raised = None, self = st, os = w, calls = []\<rparr>"

definition on_change :: "child \<Rightarrow> when_changed \<Rightarrow> os_state \<Rightarrow> string \<Rightarrow> outcome option" where
  "on_change ch st w path =
     (case is_interested st path of
        None \<Rightarrow> None
      | Some b \<Rightarrow> Some (if b then run_command ch st w path else idle st w))"

definition on_created :: "child \<Rightarrow> when_changed \<Rightarrow> os_state \<Rightarrow> event \<Rightarrow> outcome option" where
  "on_created ch st w ev =
     (if class_name (observer st) = ''InotifyObserver'' then Some (idle st w)
      else if \<not> is_directory ev
           then on_change ch (set_envvar st ''event'' ''file_created'') w (src_path ev)
           else Some (idle st w))"

definition on_modified :: "child \<Rightarrow> when_changed \<Rightarrow> os_state \<Rightarrow> event \<Rightarrow> outcome option" where
  "on_modified ch st w ev =
     (if \<not> is_directory ev
      then on_change ch (set_envvar st ''event'' ''file_modified'') w (src_path ev)
      else Some (idle st w))"

definition on_moved :: "child \<Rightarrow> when_changed \<Rightarrow> os_state \<Rightarrow> event \<Rightarrow> outcome option" where
  "on_moved ch st w ev =
     (if \<not> is_directory ev
      then on_change ch (set_envvar st ''event'' ''file_moved'') w (dest_path ev)
      else Some (idle st w))"

definition on_deleted :: "child \<Rightarrow> when_changed \<Rightarrow> os_state \<Rightarrow> event \<Rightarrow> outcome option" where
  "on_deleted ch st w ev =
     (if \<not> is_directory ev
      then on_change ch (set_envvar st ''event'' ''file_deleted'') w (src_path ev)
      else Some (idle st w))"

text \<open>
  \<open>run\<close> up to \<open>self.observer.start()\<close>: the outcome of the run at the start and whether
  the observer was started. An exception of \<open>run_command\<close> leaves \<open>run\<close> before the
  observer starts. The sleeping loop that follows is not part of the model.
\<close>

definition run :: "child \<Rightarrow> when_changed \<Rightarrow> os_state \<Rightarrow> outcome \<times> bool" where
  "run ch st w =
     (if run_at_start st
      then let r = run_command ch st w ''/dev/null'' in (r, raised r = None)
      else (idle st w, True))"

section \<open>A small world\<close>

text \<open>
  A small world for the concrete cases: \<open>/proj\<close> is a directory, no path is a symbolic
  link, the child process takes five seconds and changes nothing else.
\<close>

definition proj_os :: os_state where
  "proj_os =
     \<lparr>realpath = (\<lambda>p. p), isdir = (\<lambda>p. p = ''/proj''),
      getmtime = [''/proj'' \<mapsto> 100, ''/proj/a.txt'' \<mapsto> 200, ''/dev/null'' \<mapsto> 50],
      clock = 1000\<rparr>"

definition watcher :: "string list \<Rightarrow> bool \<Rightarrow> bool \<Rightarrow> bool \<Rightarrow> when_changed" where
  "watcher fs rec once at_start =
     init proj_os Map.empty ''Observer'' fs [''echo'', ''%f''] rec once at_start 3 False"

definition quick_child :: child where
  "quick_child c w = Inr (w\<lparr>clock := clock w + 5\<rparr>)"

text \<open>The same world on a platform that has no \<open>/dev/null\<close>.\<close>

definition no_devnull_os :: os_state where
  "no_devnull_os = proj_os\<lparr>getmtime := (getmtime proj_os)(''/dev/null'' := None)\<rparr>"

section \<open>Properties of the library functions\<close>

lemma rstrip_prefix: "prefix (rev (dropWhile P (rev xs))) xs"
proof -
  have "rev xs = takeWhile P (rev xs) @ dropWhile P (rev xs)" by simp
  then have "xs = rev (dropWhile P (rev xs)) @ rev (takeWhile P (rev xs))"
    by (metis rev_append rev_rev_ident)
  then show ?thesis by (metis prefixI)
qed

lemma dirname_prefix: "prefix (dirname p) p"
proof -
  let ?head = "rev (dropWhile (\<lambda>c. c \<noteq> CHR ''/'') (rev p))"
  have h: "prefix ?head p" by (rule rstrip_prefix)
  have k: "prefix (rev (dropWhile (\<lambda>c. c = CHR ''/'') (rev ?head))) ?head"
    by (rule rstrip_prefix)
  from k h have "prefix (rev (dropWhile (\<lambda>c. c = CHR ''/'') (rev ?head))) p"
    by (rule prefix_order.trans)
  with h show ?thesis by (simp add: dirname_def Let_def)
qed

text \<open>Taking the parent directory shortens a path until it no longer changes: a walk
  that moves to the parent in every round ends.\<close>

lemma dirname_shorter: "dirname p \<noteq> p \<Longrightarrow> length (dirname p) < length p"
proof -
  assume ne: "dirname p \<noteq> p"
  obtain zs where zs: "p = dirname p @ zs"
    using dirname_prefix [of p] by (auto simp add: prefix_def)
  with ne have "zs \<noteq> []" by auto
  then have "length (dirname p) < length (dirname p @ zs)" by simp
  with zs show ?thesis by simp
qed

lemma envvar_key_file: "envvar_key ''file'' = ''WHEN_CHANGED_FILE''"
  by (simp add: envvar_key_def upper_def upper_char_def)

lemma envvar_key_event: "envvar_key ''event'' = ''WHEN_CHANGED_EVENT''"
  by (simp add: envvar_key_def upper_def upper_char_def)

text \<open>
  \<open>str.replace\<close> leaves a string without an occurrence of \<open>old\<close> as it is, and replaces
  the leftmost occurrence first, going on behind it: every occurrence that does not
  overlap an earlier one is replaced.
\<close>

lemma str_replace_absent:
  "old \<noteq> [] \<Longrightarrow> \<not> sublist old s \<Longrightarrow> str_replace old new s = s"
proof (induction s)
  case Nil
  then show ?case by simp
next
  case (Cons c cs)
  from Cons.prems have a: "\<not> prefix old (c # cs)"
    using prefix_imp_sublist by blast
  from Cons.prems have b: "\<not> sublist old cs"
    by (auto simp add: sublist_Cons_right)
  from Cons.IH [OF Cons.prems(1) b] a Cons.prems(1) show ?case by simp
qed

lemma prefix_short:
  "prefix xs (ys @ zs) \<Longrightarrow> length xs \<le> length ys \<Longrightarrow> prefix xs ys"
  by (auto simp add: prefix_append)

lemma str_replace_first:
  "old \<noteq> [] \<Longrightarrow> \<not> sublist old (a @ butlast old) \<Longrightarrow>
   str_replace old new (a @ old @ b) = a @ new @ str_replace old new b"
proof (induction a)
  case Nil
  then obtain x xs where "old = x # xs" by (cases old) auto
  then show ?case by simp
next
  case (Cons c cs)
  have np: "\<not> prefix old (c # cs @ old @ b)"
  proof
    assume p: "prefix old (c # cs @ old @ b)"
    have e: "c # cs @ old @ b = ((c # cs) @ butlast old) @ (last old # b)"
      using Cons.prems(1) by simp
    have l: "length old \<le> length ((c # cs) @ butlast old)"
      by simp
    from p e have "prefix old (((c # cs) @ butlast old) @ (last old # b))" by simp
    from prefix_short [OF this l] have "sublist old ((c # cs) @ butlast old)"
      by (rule prefix_imp_sublist)
    with Cons.prems(2) show False by simp
  qed
  from Cons.prems(2) have "\<not> sublist old (cs @ butlast old)"
    by (auto simp add: sublist_Cons_right)
  from Cons.IH [OF Cons.prems(1) this] np Cons.prems(1) show ?case by simp
qed

text \<open>The keys of \<open>self.paths\<close> are the real paths of the files given.\<close>

lemma dict_keys_dict_set:
  "set (dict_keys (dict_set d k v)) = insert k (set (dict_keys d))"
proof (induction d)
  case Nil
  then show ?case by (simp add: dict_keys_def)
next
  case (Cons x d)
  obtain k' v' where x: "x = (k', v')" by (cases x)
  show ?case
  proof (cases "k' = k")
    case True
    with x show ?thesis by (simp add: dict_keys_def)
  next
    case False
    with x Cons show ?thesis by (auto simp add: dict_keys_def)
  qed
qed

lemma init_paths_keys_fold:
  "set (dict_keys (fold (\<lambda>f d. dict_set d (realpath w f) f) fs d0)) =
   realpath w ` set fs \<union> set (dict_keys d0)"
  by (induction fs arbitrary: d0) (auto simp add: dict_keys_dict_set)

lemma init_paths_keys: "set (dict_keys (init_paths w fs)) = realpath w ` set fs"
  using init_paths_keys_fold [of w fs "[]"] by (simp add: init_paths_def dict_keys_def)

lemma init_watch_fold:
  "watches (fold (init_watch w) ks ob) =
   watches ob @ map (\<lambda>p. if isdir w p then \<lparr>watch_path = p, watch_recursive = True\<rparr>
                          else \<lparr>watch_path = dirname p, watch_recursive = False\<rparr>) ks"
  by (induction ks arbitrary: ob) (simp_all add: init_watch_def schedule_def)

section \<open>The ancestor walk\<close>

text \<open>The loop has three behaviours, decided in its first round.\<close>

lemma ancestor_walk_stuck:
  assumes "dirname p \<noteq> p" and "\<not> dict_has ps (dirname p)"
  shows "ancestor_walk ps p = None"
proof (rule ccontr)
  assume "ancestor_walk ps p \<noteq> None"
  then obtain y where y: "ancestor_walk ps p = Some y" by auto
  have "dirname p = p \<or> dict_has ps (dirname p)"
    by (rule ancestor_walk.raw_induct
          [where P = "\<lambda>ps p y. dirname p = p \<or> dict_has ps (dirname p)", OF _ y])
       (auto split: if_splits)
  with assms show False by simp
qed

lemma ancestor_walk_found:
  "dirname p \<noteq> p \<Longrightarrow> dict_has ps (dirname p) \<Longrightarrow> ancestor_walk ps p = Some True"
  by (subst ancestor_walk.simps) simp

lemma ancestor_walk_root:
  "dirname p = p \<Longrightarrow> ancestor_walk ps p = Some False"
  by (subst ancestor_walk.simps) simp

lemma is_interested_cases:
  "is_interested st path =
     (if excluded path then Some False
      else if dict_has (paths st) path \<or> dict_has (paths st) (dirname path) then Some True
      else if \<not> recursive st \<or> dirname (dirname path) = dirname path then Some False
      else if dict_has (paths st) (dirname (dirname path)) then Some True
      else None)"
  by (simp add: is_interested_def Let_def ancestor_walk_stuck ancestor_walk_found
        ancestor_walk_root)

lemma watcher_fields:
  "recursive (watcher fs r on a) = r"
  "run_once (watcher fs r on a) = on"
  "run_at_start (watcher fs r on a) = a"
  "last_run (watcher fs r on a) = 0"
  "command (watcher fs r on a) = [''echo'', ''%f'']"
  "process_env (watcher fs r on a) = Map.empty"
  "quiet_mode (watcher fs r on a) = False"
  "paths (watcher fs r on a) = init_paths proj_os fs"
  by (simp_all add: watcher_def init_def Let_def)

lemma proj_paths: "init_paths proj_os [''/proj''] = [(''/proj'', ''/proj'')]"
  by (simp add: init_paths_def proj_os_def)

lemma proj_has: "dict_has (init_paths proj_os [''/proj'']) p = (p = ''/proj'')"
  by (auto simp add: proj_paths dict_has_def dict_keys_def)

lemma proj_isdir: "isdir proj_os p = (p = ''/proj'')"
  by (simp add: proj_os_def)

lemma proj_mtime:
  "getmtime proj_os ''/proj/a.txt'' = Some 200"
  "getmtime proj_os ''/proj/gone.txt'' = None"
  "getmtime proj_os ''/dev/null'' = Some 50"
  "getmtime no_devnull_os ''/dev/null'' = None"
  "clock proj_os = 1000"
  by (simp_all add: proj_os_def no_devnull_os_def)

lemma not_excluded_examples:
  "\<not> excluded ''/proj/a.txt''"
  "\<not> excluded ''/proj/src/main.py''"
  "\<not> excluded ''/proj/a/b/c.txt''"
  by (simp_all add: excluded_def exclude_list_def lits_def)

lemma excluded_examples:
  "excluded ''/proj/notes.txt~''"
  "excluded ''/proj/.git/config''"
  by (simp_all add: excluded_def exclude_list_def lits_def)

lemma dirname_examples:
  "dirname ''/proj/a.txt'' = ''/proj''"
  "dirname ''/proj/notes.txt~'' = ''/proj''"
  "dirname ''/proj/src/main.py'' = ''/proj/src''"
  "dirname ''/proj/src'' = ''/proj''"
  "dirname ''/proj/.git/config'' = ''/proj/.git''"
  "dirname ''/proj/.git'' = ''/proj''"
  by (simp_all add: dirname_def)

section \<open>Exclusion\<close>

text \<open>
  C5. A path in which one of the patterns of \<open>exclude_list\<close> matches is not interesting,
  whatever the registered paths and the recursive flag are: the patterns are tried on
  the path as it was given, before any other test.
\<close>

theorem exclusion_wins:
  "i \<in> set exclude_list \<Longrightarrow> findall_nonempty i path \<Longrightarrow>
   is_interested st path = Some False"
  by (auto simp add: is_interested_def excluded_def)

text \<open>The git directory itself, registered as a target of a recursive watcher.\<close>

theorem exclusion_wins_witness:
  "lits ''.git'' @ [Opt (Lit (CHR ''/''))] \<in> set exclude_list
   \<and> findall_nonempty (lits ''.git'' @ [Opt (Lit (CHR ''/''))]) ''/proj/.git''
   \<and> dict_has (paths (watcher [''/proj/.git''] True False False)) ''/proj/.git''
   \<and> is_interested (watcher [''/proj/.git''] True False False) ''/proj/.git'' = Some False"
proof -
  have a: "lits ''.git'' @ [Opt (Lit (CHR ''/''))] \<in> set exclude_list"
    by (simp add: exclude_list_def)
  have b: "findall_nonempty (lits ''.git'' @ [Opt (Lit (CHR ''/''))]) ''/proj/.git''"
    by (simp add: lits_def)
  have c: "dict_has (paths (watcher [''/proj/.git''] True False False)) ''/proj/.git''"
    by (simp add: watcher_fields init_paths_def proj_os_def dict_has_def dict_keys_def)
  from a b c exclusion_wins [OF a b, of "watcher [''/proj/.git''] True False False"]
  show ?thesis by simp
qed

section \<open>Termination of \<open>is_interested\<close>\<close>

text \<open>
  C2. \<open>is_interested\<close> is meant to return a boolean for every path and every watcher.
  With \<open>/proj\<close> registered and the recursive flag set, the path \<open>/proj/a/b/c.txt\<close> is
  not excluded, is not registered, and neither its parent \<open>/proj/a/b\<close> nor the parent
  of that, \<open>/proj/a\<close>, is registered. The loop tests \<open>/proj/a\<close> in every round, because
  its body never assigns \<open>path\<close>: the call does not return.
\<close>

theorem is_interested_diverges:
  "is_interested (watcher [''/proj''] True False False) ''/proj/a/b/c.txt'' = None"
  by (simp add: is_interested_cases not_excluded_examples watcher_fields proj_has dirname_def)

section \<open>Children of a registered directory\<close>

text \<open>
  C6, as the code has it. A path that no pattern of \<open>exclude_list\<close> matches and whose
  parent directory (\<open>os.path.dirname\<close>) is registered is interesting.
\<close>

theorem parent_registered:
  "\<not> excluded f \<Longrightarrow> dict_has (paths st) (dirname f) \<Longrightarrow> is_interested st f = Some True"
  by (simp add: is_interested_cases)

theorem parent_registered_witness:
  "\<not> excluded ''/proj/a.txt''
   \<and> dict_has (paths (watcher [''/proj''] False False False)) (dirname ''/proj/a.txt'')
   \<and> is_interested (watcher [''/proj''] False False False) ''/proj/a.txt'' = Some True"
proof -
  have a: "\<not> excluded ''/proj/a.txt''" by (rule not_excluded_examples)
  have b: "dict_has (paths (watcher [''/proj''] False False False)) (dirname ''/proj/a.txt'')"
    by (simp add: watcher_fields proj_has dirname_examples)
  from a b parent_registered [OF a b] show ?thesis by simp
qed

text \<open>Without the condition on the patterns the statement fails: a backup file in the
  registered directory \<open>/proj\<close> is not interesting.\<close>

theorem backup_file_counterexample:
  "isdir proj_os ''/proj''
   \<and> dict_has (paths (watcher [''/proj''] False False False)) ''/proj''
   \<and> dirname ''/proj/notes.txt~'' = ''/proj''
   \<and> is_interested (watcher [''/proj''] False False False) ''/proj/notes.txt~'' = Some False"
  by (simp add: is_interested_cases excluded_examples watcher_fields proj_has dirname_examples
        proj_isdir)

section \<open>Recursive mode\<close>

text \<open>
  C1, as the code has it. In recursive mode, a path that no pattern of \<open>exclude_list\<close>
  matches and whose parent directory, or the parent directory of that, is a registered
  path \<open>d\<close> is interesting. Without recursive mode, a path that is not registered and
  whose parent directory is not registered is not interesting. The statement is silent
  on deeper descendants in recursive mode.
\<close>

theorem recursive_interest:
  "(recursive st \<and> \<not> excluded path \<and> dict_has (paths st) d
      \<and> (dirname path = d \<or> dirname (dirname path) = d)
    \<longrightarrow> is_interested st path = Some True)
   \<and> (\<not> recursive st \<and> \<not> dict_has (paths st) path \<and> \<not> dict_has (paths st) (dirname path)
    \<longrightarrow> is_interested st path = Some False)"
  by (auto simp add: is_interested_cases)

theorem recursive_interest_witness:
  "recursive (watcher [''/proj''] True False False)
   \<and> \<not> excluded ''/proj/src/main.py''
   \<and> dict_has (paths (watcher [''/proj''] True False False)) ''/proj''
   \<and> dirname (dirname ''/proj/src/main.py'') = ''/proj''
   \<and> is_interested (watcher [''/proj''] True False False) ''/proj/src/main.py'' = Some True
   \<and> \<not> recursive (watcher [''/proj''] False False False)
   \<and> \<not> dict_has (paths (watcher [''/proj''] False False False)) ''/proj/src/main.py''
   \<and> \<not> dict_has (paths (watcher [''/proj''] False False False)) (dirname ''/proj/src/main.py'')
   \<and> is_interested (watcher [''/proj''] False False False) ''/proj/src/main.py'' = Some False"
  using recursive_interest [of "watcher [''/proj''] True False False" "''/proj/src/main.py''"
          "''/proj''"]
        recursive_interest [of "watcher [''/proj''] False False False" "''/proj/src/main.py''"]
  by (simp add: watcher_fields proj_has dirname_examples not_excluded_examples)

text \<open>A descendant of the registered directory \<open>/proj\<close> that is not interesting in
  recursive mode: it lies in a git directory.\<close>

theorem excluded_descendant_counterexample:
  "recursive (watcher [''/proj''] True False False)
   \<and> isdir proj_os ''/proj''
   \<and> dict_has (paths (watcher [''/proj''] True False False)) ''/proj''
   \<and> dirname (dirname ''/proj/.git/config'') = ''/proj''
   \<and> is_interested (watcher [''/proj''] True False False) ''/proj/.git/config'' = Some False"
  by (simp add: is_interested_cases excluded_examples watcher_fields proj_has dirname_examples
        proj_isdir)

section \<open>The run gate\<close>

text \<open>
  C3. Without \<open>run_once\<close> the command is always run. With \<open>run_once\<close>, \<open>run_command\<close> does
  nothing when the file does not exist and nothing when the time of its last change is
  strictly earlier than \<open>last_run\<close>; otherwise the command is run.
\<close>

theorem run_gate:
  "(\<not> run_once st \<longrightarrow> calls (run_command ch st w f) = [the_call st f])
   \<and> (run_once st \<and> \<not> exists_path w f \<longrightarrow> run_command ch st w f = idle st w)
   \<and> (run_once st \<and> getmtime w f = Some m \<and> m < last_run st
        \<longrightarrow> run_command ch st w f = idle st w)
   \<and> (run_once st \<and> getmtime w f = Some m \<and> \<not> m < last_run st
        \<longrightarrow> calls (run_command ch st w f) = [the_call st f])"
  by (auto simp add: run_command_def gate_open_def exists_path_def idle_def Let_def
        split: sum.splits)

text \<open>A file that is gone, a file changed at 200 with a last run at 300, and the same file
  with a last run at 200.\<close>

theorem run_gate_witness:
  "\<not> run_once (watcher [''/proj''] False False False)
   \<and> calls (run_command quick_child (watcher [''/proj''] False False False) proj_os
        ''/proj/gone.txt'') =
       [the_call (watcher [''/proj''] False False False) ''/proj/gone.txt'']
   \<and> run_once (watcher [''/proj''] False True False)
   \<and> \<not> exists_path proj_os ''/proj/gone.txt''
   \<and> run_command quick_child (watcher [''/proj''] False True False) proj_os ''/proj/gone.txt'' =
       idle (watcher [''/proj''] False True False) proj_os
   \<and> getmtime proj_os ''/proj/a.txt'' = Some 200
   \<and> (200 :: real) < last_run ((watcher [''/proj''] False True False)\<lparr>last_run := 300\<rparr>)
   \<and> run_command quick_child ((watcher [''/proj''] False True False)\<lparr>last_run := 300\<rparr>)
        proj_os ''/proj/a.txt'' =
       idle ((watcher [''/proj''] False True False)\<lparr>last_run := 300\<rparr>) proj_os
   \<and> \<not> (200 :: real) < last_run ((watcher [''/proj''] False True False)\<lparr>last_run := 200\<rparr>)
   \<and> calls (run_command quick_child ((watcher [''/proj''] False True False)\<lparr>last_run := 200\<rparr>)
        proj_os ''/proj/a.txt'') =
       [the_call ((watcher [''/proj''] False True False)\<lparr>last_run := 200\<rparr>) ''/proj/a.txt'']"
  using run_gate [where st = "watcher [''/proj''] False False False" and ch = quick_child
          and w = proj_os and f = "''/proj/gone.txt''"]
        run_gate [where st = "watcher [''/proj''] False True False" and ch = quick_child
          and w = proj_os and f = "''/proj/gone.txt''"]
        run_gate [where st = "(watcher [''/proj''] False True False)\<lparr>last_run := 300\<rparr>"
          and ch = quick_child and w = proj_os and f = "''/proj/a.txt''" and m = 200]
        run_gate [where st = "(watcher [''/proj''] False True False)\<lparr>last_run := 200\<rparr>"
          and ch = quick_child and w = proj_os and f = "''/proj/a.txt''" and m = 200]
  by (simp add: watcher_fields proj_mtime exists_path_def)

section \<open>The command line\<close>

text \<open>
  C7. Every \<open>subprocess.call\<close> of \<open>run_command\<close> is given the command with \<open>%f\<close> replaced by
  the file in each of its items, and goes through a shell exactly when that list has one
  item; \<open>str_replace_absent\<close> and \<open>str_replace_first\<close> say what the replacement is.
\<close>

theorem command_substitution:
  "(\<forall>c \<in> set (calls (run_command ch st w f)).
      args c = map (str_replace ''%f'' f) (command st) \<and> shell c = (length (args c) = 1))
   \<and> (gate_open st w f \<longrightarrow> calls (run_command ch st w f) = [the_call st f])"
  by (auto simp add: run_command_def the_call_def new_command_def Let_def split: sum.splits)

theorem command_substitution_witness:
  "gate_open (watcher [''/proj''] False False False) proj_os ''/proj/a.txt''
   \<and> map args (calls (run_command quick_child (watcher [''/proj''] False False False) proj_os
        ''/proj/a.txt'')) = [[''echo'', ''/proj/a.txt'']]
   \<and> map shell (calls (run_command quick_child (watcher [''/proj''] False False False) proj_os
        ''/proj/a.txt'')) = [False]
   \<and> gate_open ((watcher [''/proj''] False False False)\<lparr>command := [''wc %f | tee %f.n'']\<rparr>)
        proj_os ''/proj/a.txt''
   \<and> map args (calls (run_command quick_child
        ((watcher [''/proj''] False False False)\<lparr>command := [''wc %f | tee %f.n'']\<rparr>) proj_os
        ''/proj/a.txt'')) = [[''wc /proj/a.txt | tee /proj/a.txt.n'']]
   \<and> map shell (calls (run_command quick_child
        ((watcher [''/proj''] False False False)\<lparr>command := [''wc %f | tee %f.n'']\<rparr>) proj_os
        ''/proj/a.txt'')) = [True]"
  using command_substitution [where ch = quick_child
          and st = "watcher [''/proj''] False False False" and w = proj_os
          and f = "''/proj/a.txt''"]
        command_substitution [where ch = quick_child
          and st = "(watcher [''/proj''] False False False)\<lparr>command := [''wc %f | tee %f.n'']\<rparr>"
          and w = proj_os and f = "''/proj/a.txt''"]
  by (simp add: watcher_fields gate_open_def the_call_def new_command_def)

section \<open>What a run changes\<close>

lemma run_command_self:
  "self (run_command ch st w f) = st
   \<or> (\<exists>t. self (run_command ch st w f) =
         st\<lparr>last_run := t,
            process_env := (process_env st)(''WHEN_CHANGED_FILE'' \<mapsto> f)\<rparr>)"
proof (cases "gate_open st w f")
  case False
  then show ?thesis by (simp add: run_command_def)
next
  case True
  show ?thesis
  proof (cases "ch (the_call st f) w")
    case (Inl e)
    with True have "self (run_command ch st w f) =
        st\<lparr>last_run := last_run st,
           process_env := (process_env st)(''WHEN_CHANGED_FILE'' \<mapsto> f)\<rparr>"
      by (simp add: run_command_def Let_def set_envvar_def envvar_key_file)
    then show ?thesis by blast
  next
    case (Inr w1)
    with True have "self (run_command ch st w f) =
        st\<lparr>last_run := clock w1,
           process_env := (process_env st)(''WHEN_CHANGED_FILE'' \<mapsto> f)\<rparr>"
      by (simp add: run_command_def Let_def set_envvar_def envvar_key_file split: sum.splits)
    then show ?thesis by blast
  qed
qed

lemma run_command_frame:
  "self (run_command ch st w f) =
     st\<lparr>last_run := last_run (self (run_command ch st w f)),
        process_env := process_env (self (run_command ch st w f))\<rparr>
   \<and> (\<forall>k. k \<noteq> ''WHEN_CHANGED_FILE'' \<longrightarrow>
          process_env (self (run_command ch st w f)) k = process_env st k)"
  using run_command_self [of ch st w f] by auto

lemma on_change_frame:
  assumes "on_change ch (set_envvar st ''event'' v) w p = Some r"
  shows "self r = st\<lparr>last_run := last_run (self r), process_env := process_env (self r)\<rparr>
         \<and> (\<forall>k. k \<noteq> ''WHEN_CHANGED_EVENT'' \<and> k \<noteq> ''WHEN_CHANGED_FILE'' \<longrightarrow>
               process_env (self r) k = process_env st k)"
proof -
  let ?st = "set_envvar st ''event'' v"
  from assms obtain b where b: "is_interested ?st p = Some b"
    and r: "r = (if b then run_command ch ?st w p else idle ?st w)"
    by (auto simp add: on_change_def split: option.splits)
  show ?thesis
  proof (cases b)
    case False
    with r show ?thesis by (simp add: idle_def set_envvar_def envvar_key_event)
  next
    case True
    with r have "r = run_command ch ?st w p" by simp
    with run_command_self [of ch ?st w p] show ?thesis
      by (auto simp add: set_envvar_def envvar_key_event)
  qed
qed

lemma handler_cases:
  assumes "h \<in> {on_created, on_modified, on_moved, on_deleted}"
  shows "h ch st w ev = Some (idle st w)
         \<or> (\<exists>v p. h ch st w ev = on_change ch (set_envvar st ''event'' v) w p)"
proof -
  have "on_created ch st w ev = Some (idle st w)
        \<or> (\<exists>v p. on_created ch st w ev = on_change ch (set_envvar st ''event'' v) w p)"
    unfolding on_created_def by (cases "is_directory ev") auto
  moreover have "on_modified ch st w ev = Some (idle st w)
        \<or> (\<exists>v p. on_modified ch st w ev = on_change ch (set_envvar st ''event'' v) w p)"
    unfolding on_modified_def by (cases "is_directory ev") auto
  moreover have "on_moved ch st w ev = Some (idle st w)
        \<or> (\<exists>v p. on_moved ch st w ev = on_change ch (set_envvar st ''event'' v) w p)"
    unfolding on_moved_def by (cases "is_directory ev") auto
  moreover have "on_deleted ch st w ev = Some (idle st w)
        \<or> (\<exists>v p. on_deleted ch st w ev = on_change ch (set_envvar st ''event'' v) w p)"
    unfolding on_deleted_def by (cases "is_directory ev") auto
  ultimately show ?thesis using assms by auto
qed

text \<open>
  C8. \<open>run_command\<close> changes nothing of the watcher but \<open>last_run\<close> and the entry
  \<open>WHEN_CHANGED_FILE\<close> of \<open>process_env\<close>; a handler that returns changes nothing but
  \<open>last_run\<close> and the entries \<open>WHEN_CHANGED_EVENT\<close> and \<open>WHEN_CHANGED_FILE\<close>. When the child
  has run, \<open>last_run\<close> is the clock at the end of the child, which \<open>subprocess.call\<close> waits
  for.
\<close>

theorem run_frame:
  "self (run_command ch st w f) =
     st\<lparr>last_run := last_run (self (run_command ch st w f)),
        process_env := process_env (self (run_command ch st w f))\<rparr>
   \<and> (\<forall>k. k \<noteq> ''WHEN_CHANGED_FILE'' \<longrightarrow>
          process_env (self (run_command ch st w f)) k = process_env st k)
   \<and> (\<forall>h \<in> {on_created, on_modified, on_moved, on_deleted}. \<forall>r. h ch st w ev = Some r \<longrightarrow>
          self r = st\<lparr>last_run := last_run (self r), process_env := process_env (self r)\<rparr>
          \<and> (\<forall>k. k \<noteq> ''WHEN_CHANGED_EVENT'' \<and> k \<noteq> ''WHEN_CHANGED_FILE'' \<longrightarrow>
                process_env (self r) k = process_env st k))
   \<and> (gate_open st w f \<and> ch (the_call st f) w = Inr w1 \<longrightarrow>
          last_run (self (run_command ch st w f)) = clock w1
          \<and> os (run_command ch st w f) = w1)"
proof (intro conjI ballI allI impI)
  show "self (run_command ch st w f) =
     st\<lparr>last_run := last_run (self (run_command ch st w f)),
        process_env := process_env (self (run_command ch st w f))\<rparr>"
    using run_command_frame by blast
next
  fix k :: string
  assume "k \<noteq> ''WHEN_CHANGED_FILE''"
  then show "process_env (self (run_command ch st w f)) k = process_env st k"
    using run_command_frame by blast
next
  fix h r
  assume h: "h \<in> {on_created, on_modified, on_moved, on_deleted}"
    and r: "h ch st w ev = Some r"
  have *: "self r = st\<lparr>last_run := last_run (self r), process_env := process_env (self r)\<rparr>
         \<and> (\<forall>k. k \<noteq> ''WHEN_CHANGED_EVENT'' \<and> k \<noteq> ''WHEN_CHANGED_FILE'' \<longrightarrow>
               process_env (self r) k = process_env st k)"
  proof -
    from h handler_cases [of h ch st w ev]
    consider "h ch st w ev = Some (idle st w)"
      | v p where "h ch st w ev = on_change ch (set_envvar st ''event'' v) w p"
      by blast
    then show ?thesis
    proof cases
      case 1
      with r show ?thesis by (auto simp add: idle_def)
    next
      case 2
      with r on_change_frame [of ch st v w p r] show ?thesis by simp
    qed
  qed
  from * show "self r = st\<lparr>last_run := last_run (self r), process_env := process_env (self r)\<rparr>"
    by blast
  fix k :: string
  assume "k \<noteq> ''WHEN_CHANGED_EVENT'' \<and> k \<noteq> ''WHEN_CHANGED_FILE''"
  with * show "process_env (self r) k = process_env st k" by blast
next
  assume "gate_open st w f \<and> ch (the_call st f) w = Inr w1"
  then show "last_run (self (run_command ch st w f)) = clock w1"
    by (simp add: run_command_def Let_def split: sum.splits)
next
  assume "gate_open st w f \<and> ch (the_call st f) w = Inr w1"
  then show "os (run_command ch st w f) = w1"
    by (simp add: run_command_def Let_def split: sum.splits)
qed

lemma quick_child_proj:
  "quick_child c proj_os = Inr (proj_os\<lparr>clock := 1005\<rparr>)"
  by (simp add: quick_child_def proj_os_def)

text \<open>A change of \<open>/proj/a.txt\<close>: the child starts at 1000 and ends at 1005.\<close>

theorem run_frame_witness:
  "on_modified quick_child (watcher [''/proj''] False False False) proj_os
       \<lparr>is_directory = False, src_path = ''/proj/a.txt'', dest_path = ''''\<rparr> =
     Some \<lparr>raised = None,
            self = (watcher [''/proj''] False False False)
              \<lparr>last_run := 1005,
                process_env := [''WHEN_CHANGED_EVENT'' \<mapsto> ''file_modified'',
                                ''WHEN_CHANGED_FILE'' \<mapsto> ''/proj/a.txt'']\<rparr>,
            os = proj_os\<lparr>clock := 1005\<rparr>,
            calls = [\<lparr>args = [''echo'', ''/proj/a.txt''], shell = False,
                      env = [''WHEN_CHANGED_EVENT'' \<mapsto> ''file_modified'',
                             ''WHEN_CHANGED_FILE'' \<mapsto> ''/proj/a.txt''],
                      stdout_devnull = False\<rparr>]\<rparr>
   \<and> gate_open (watcher [''/proj''] False False False) proj_os ''/proj/a.txt''
   \<and> quick_child (the_call (watcher [''/proj''] False False False) ''/proj/a.txt'') proj_os =
       Inr (proj_os\<lparr>clock := 1005\<rparr>)
   \<and> clock proj_os = 1000
   \<and> last_run (self (run_command quick_child (watcher [''/proj''] False False False) proj_os
        ''/proj/a.txt'')) = 1005"
proof -
  let ?W = "watcher [''/proj''] False False False"
  let ?E = "set_envvar ?W ''event'' ''file_modified''"
  have g: "gate_open ?W proj_os ''/proj/a.txt''"
    by (simp add: gate_open_def watcher_fields)
  have q: "quick_child (the_call ?W ''/proj/a.txt'') proj_os = Inr (proj_os\<lparr>clock := 1005\<rparr>)"
    by (rule quick_child_proj)
  have i: "is_interested ?E ''/proj/a.txt'' = Some True"
    by (simp add: is_interested_cases not_excluded_examples set_envvar_def watcher_fields
          proj_has dirname_examples)
  have r: "run_command quick_child ?E proj_os ''/proj/a.txt'' =
      \<lparr>raised = None,
        self = ?W\<lparr>last_run := 1005,
                  process_env := [''WHEN_CHANGED_EVENT'' \<mapsto> ''file_modified'',
                                  ''WHEN_CHANGED_FILE'' \<mapsto> ''/proj/a.txt'']\<rparr>,
        os = proj_os\<lparr>clock := 1005\<rparr>,
        calls = [\<lparr>args = [''echo'', ''/proj/a.txt''], shell = False,
                  env = [''WHEN_CHANGED_EVENT'' \<mapsto> ''file_modified'',
                         ''WHEN_CHANGED_FILE'' \<mapsto> ''/proj/a.txt''],
                  stdout_devnull = False\<rparr>]\<rparr>"
    by (simp add: run_command_def Let_def gate_open_def the_call_def new_command_def
          quick_child_proj get_envvar_def set_envvar_def watcher_fields envvar_key_file
          envvar_key_event)
  have m: "on_modified quick_child ?W proj_os
       \<lparr>is_directory = False, src_path = ''/proj/a.txt'', dest_path = ''''\<rparr> =
     Some (run_command quick_child ?E proj_os ''/proj/a.txt'')"
    by (simp add: on_modified_def on_change_def i)
  from run_frame [where ch = quick_child and st = ?W and w = proj_os and f = "''/proj/a.txt''"
      and ?w1.0 = "proj_os\<lparr>clock := 1005\<rparr>"] g q
  have "last_run (self (run_command quick_child ?W proj_os ''/proj/a.txt'')) = 1005"
    by simp
  with g q m r show ?thesis by (simp add: proj_mtime)
qed

section \<open>Events on directories\<close>

text \<open>
  C9. For an event whose \<open>is_directory\<close> is set, each of the four handlers returns
  without a call of the command and leaves the watcher and the operating system as
  they were.
\<close>

theorem directory_events_ignored:
  "is_directory ev \<Longrightarrow>
     on_created ch st w ev = Some \<lparr>raised = None, self = st, os = w, calls = []\<rparr>
   \<and> on_modified ch st w ev = Some \<lparr>raised = None, self = st, os = w, calls = []\<rparr>
   \<and> on_moved ch st w ev = Some \<lparr>raised = None, self = st, os = w, calls = []\<rparr>
   \<and> on_deleted ch st w ev = Some \<lparr>raised = None, self = st, os = w, calls = []\<rparr>"
  by (simp add: on_created_def on_modified_def on_moved_def on_deleted_def idle_def)

theorem directory_events_ignored_witness:
  "is_directory \<lparr>is_directory = True, src_path = ''/proj/src'', dest_path = ''/proj/lib''\<rparr>
   \<and> on_created quick_child (watcher [''/proj''] True False False) proj_os
        \<lparr>is_directory = True, src_path = ''/proj/src'', dest_path = ''/proj/lib''\<rparr> =
       Some \<lparr>raised = None, self = watcher [''/proj''] True False False, os = proj_os, calls = []\<rparr>
   \<and> on_modified quick_child (watcher [''/proj''] True False False) proj_os
        \<lparr>is_directory = True, src_path = ''/proj/src'', dest_path = ''/proj/lib''\<rparr> =
       Some \<lparr>raised = None, self = watcher [''/proj''] True False False, os = proj_os, calls = []\<rparr>
   \<and> on_moved quick_child (watcher [''/proj''] True False False) proj_os
        \<lparr>is_directory = True, src_path = ''/proj/src'', dest_path = ''/proj/lib''\<rparr> =
       Some \<lparr>raised = None, self = watcher [''/proj''] True False False, os = proj_os, calls = []\<rparr>
   \<and> on_deleted quick_child (watcher [''/proj''] True False False) proj_os
        \<lparr>is_directory = True, src_path = ''/proj/src'', dest_path = ''/proj/lib''\<rparr> =
       Some \<lparr>raised = None, self = watcher [''/proj''] True False False, os = proj_os, calls = []\<rparr>"
proof -
  have d: "is_directory \<lparr>is_directory = True, src_path = ''/proj/src'', dest_path = ''/proj/lib''\<rparr>"
    by simp
  from d directory_events_ignored [OF d, of quick_child "watcher [''/proj''] True False False"
    proj_os] show ?thesis by simp
qed

section \<open>The run at the start\<close>

text \<open>
  C10, as the code has it. When \<open>run\<close> is called with \<open>run_at_start\<close> set and no
  \<open>WHEN_CHANGED_EVENT\<close> in \<open>process_env\<close>, and the gate of \<open>run_command\<close> lets \<open>/dev/null\<close>
  through, and the child can be started and ends, then \<open>run_command\<close> raises \<open>KeyError\<close>
  for \<open>WHEN_CHANGED_EVENT\<close> after the child has run and \<open>last_run\<close> has been set, and the
  observer is not started.
\<close>

theorem start_run_key_error:
  "run_at_start st \<Longrightarrow> process_env st ''WHEN_CHANGED_EVENT'' = None \<Longrightarrow>
   gate_open st w ''/dev/null'' \<Longrightarrow> ch (the_call st ''/dev/null'') w = Inr w1 \<Longrightarrow>
   run ch st w =
     (\<lparr>raised = Some (KeyError ''WHEN_CHANGED_EVENT''),
       self = st\<lparr>last_run := clock w1,
                 process_env := (process_env st)(''WHEN_CHANGED_FILE'' \<mapsto> ''/dev/null'')\<rparr>,
       os = w1, calls = [the_call st ''/dev/null'']\<rparr>, False)"
  by (simp add: run_def run_command_def Let_def get_envvar_def set_envvar_def
        envvar_key_file envvar_key_event)

theorem start_run_key_error_witness:
  "run_at_start (watcher [''/proj''] False True True)
   \<and> process_env (watcher [''/proj''] False True True) ''WHEN_CHANGED_EVENT'' = None
   \<and> gate_open (watcher [''/proj''] False True True) proj_os ''/dev/null''
   \<and> quick_child (the_call (watcher [''/proj''] False True True) ''/dev/null'') proj_os =
       Inr (proj_os\<lparr>clock := 1005\<rparr>)
   \<and> run quick_child (watcher [''/proj''] False True True) proj_os =
       (\<lparr>raised = Some (KeyError ''WHEN_CHANGED_EVENT''),
         self = (watcher [''/proj''] False True True)
           \<lparr>last_run := 1005, process_env := [''WHEN_CHANGED_FILE'' \<mapsto> ''/dev/null'']\<rparr>,
         os = proj_os\<lparr>clock := 1005\<rparr>,
         calls = [the_call (watcher [''/proj''] False True True) ''/dev/null'']\<rparr>, False)"
proof -
  let ?W = "watcher [''/proj''] False True True"
  have a: "run_at_start ?W" by (simp add: watcher_fields)
  have b: "process_env ?W ''WHEN_CHANGED_EVENT'' = None" by (simp add: watcher_fields)
  have c: "gate_open ?W proj_os ''/dev/null''"
    by (simp add: gate_open_def watcher_fields proj_mtime)
  have d: "quick_child (the_call ?W ''/dev/null'') proj_os = Inr (proj_os\<lparr>clock := 1005\<rparr>)"
    by (rule quick_child_proj)
  from a b c d start_run_key_error [where ch = quick_child, OF a b c d] show ?thesis
    by (simp add: watcher_fields)
qed

text \<open>With \<open>run_once\<close> set and no \<open>/dev/null\<close>, the gate closes: no child, no \<open>KeyError\<close>, and
  the observer is started.\<close>

theorem start_run_suppressed_counterexample:
  "run_at_start (watcher [''/proj''] False True True)
   \<and> process_env (watcher [''/proj''] False True True) ''WHEN_CHANGED_EVENT'' = None
   \<and> run quick_child (watcher [''/proj''] False True True) no_devnull_os =
       (\<lparr>raised = None, self = watcher [''/proj''] False True True, os = no_devnull_os,
         calls = []\<rparr>, True)"
  by (simp add: run_def run_command_def gate_open_def watcher_fields proj_mtime)

section \<open>Registration\<close>

text \<open>
  C4, as the code has it. \<open>__init__\<close> requests one subscription for each key of
  \<open>self.paths\<close>, in their order: for a directory a recursive subscription on the
  directory, whatever the recursive option is, and for any other path a subscription
  that is not recursive on its parent directory. The keys are the real paths of the
  files given.
\<close>

theorem subscriptions:
  "watches (observer (init w environ cls fs cmd rec once at_start verbose quiet)) =
     map (\<lambda>p. if isdir w p then \<lparr>watch_path = p, watch_recursive = True\<rparr>
              else \<lparr>watch_path = dirname p, watch_recursive = False\<rparr>)
       (dict_keys (paths (init w environ cls fs cmd rec once at_start verbose quiet)))
   \<and> set (dict_keys (paths (init w environ cls fs cmd rec once at_start verbose quiet))) =
       realpath w ` set fs"
  by (simp add: init_def Let_def init_watch_fold init_paths_keys)

theorem subscriptions_witness:
  "dict_keys (paths (init proj_os Map.empty ''Observer'' [''/proj'', ''/proj/a.txt'', ''/proj'']
       [''echo'', ''%f''] True False False 3 False)) = [''/proj'', ''/proj/a.txt'']
   \<and> isdir proj_os ''/proj'' \<and> \<not> isdir proj_os ''/proj/a.txt''
   \<and> watches (observer (init proj_os Map.empty ''Observer'' [''/proj'', ''/proj/a.txt'', ''/proj'']
       [''echo'', ''%f''] True False False 3 False)) =
       [\<lparr>watch_path = ''/proj'', watch_recursive = True\<rparr>,
        \<lparr>watch_path = ''/proj'', watch_recursive = False\<rparr>]"
proof -
  have k: "dict_keys (paths (init proj_os Map.empty ''Observer''
       [''/proj'', ''/proj/a.txt'', ''/proj''] [''echo'', ''%f''] True False False 3 False)) =
       [''/proj'', ''/proj/a.txt'']"
    by (simp add: init_def Let_def init_paths_def dict_keys_def proj_os_def)
  from subscriptions [of proj_os Map.empty "''Observer''" "[''/proj'', ''/proj/a.txt'', ''/proj'']"
    "[''echo'', ''%f'']" True False False 3 False] k
  show ?thesis by (simp add: proj_isdir dirname_examples)
qed

text \<open>A watcher that is not recursive subscribes to its directory recursively.\<close>

theorem recursive_subscription_counterexample:
  "\<not> recursive (watcher [''/proj''] False False False)
   \<and> isdir proj_os ''/proj''
   \<and> dict_keys (paths (watcher [''/proj''] False False False)) = [''/proj'']
   \<and> watches (observer (watcher [''/proj''] False False False)) =
       [\<lparr>watch_path = ''/proj'', watch_recursive = True\<rparr>]"
  by (simp add: watcher_fields proj_paths proj_isdir dict_keys_def)
     (simp add: watcher_def init_def Let_def proj_paths dict_keys_def init_watch_def
        proj_isdir schedule_def)

end
